theory Spec2Isabelle
  imports Main "HOL-Library.Multiset"
begin

section \<open>Values, facts and errors\<close>

text \<open>
  The Python values that travel through \<^verbatim>\<open>pyrobosim/planning/pddlstream/utils.py\<close>:
  \<^verbatim>\<open>None\<close>, a string (a predicate name or a category label), a reference to an
  object of the world model (robot, room, location, spawn, object, pose; none of them
  defines \<^verbatim>\<open>__eq__\<close>, so \<^verbatim>\<open>==\<close> is identity and the reference is the value), and
  an instance of \<^verbatim>\<open>Path\<close>, the one class the decoder tests with \<^verbatim>\<open>isinstance\<close>.
  Equality of \<open>val\<close> is Python's \<^verbatim>\<open>==\<close> on these values.
\<close>

datatype val = NoneV | Str string | Ref nat | PathV nat

text \<open>A fact is a Python tuple: the predicate name first, then the arguments.
  Tuples compare element by element, as lists do here.\<close>

type_synonym fact = "val list"

text \<open>\<^verbatim>\<open>list.remove\<close> raises \<^verbatim>\<open>ValueError\<close>, indexing a tuple raises \<^verbatim>\<open>IndexError\<close>.\<close>

datatype error = ValueError | IndexError

text \<open>Truth value, as \<^verbatim>\<open>not x\<close> reads it: \<^verbatim>\<open>None\<close> and the empty string are false, an
  object of the world model is true.\<close>

fun truthy :: "val \<Rightarrow> bool" where
  "truthy NoneV = False"
| "truthy (Str s) = (s \<noteq> [])"
| "truthy (Ref r) = True"
| "truthy (PathV p) = True"

fun isinstance_Path :: "val \<Rightarrow> bool" where
  "isinstance_Path (PathV p) = True"
| "isinstance_Path v = False"

section \<open>The world model read by the encoder\<close>

text \<open>
  The world is an object graph. Its entities are references; the attributes the
  encoder reads (\<^verbatim>\<open>loc.children\<close>, \<^verbatim>\<open>loc.category\<close>, \<^verbatim>\<open>loc.parent\<close>,
  \<^verbatim>\<open>obj.category\<close>, \<^verbatim>\<open>obj.parent\<close>) are functions of the reference, as in a heap.
  The single robot's attributes are fields of the world. The class \<^verbatim>\<open>World\<close> lives
  in another module, so its method \<^verbatim>\<open>get_location_from_pose\<close> is a field too: any
  function from a pose to a location or \<^verbatim>\<open>None\<close>.
\<close>

record world =
  robot :: nat
  robot_location :: val
  robot_pose :: val
  manipulated_object :: val
  get_location_from_pose :: "val \<Rightarrow> val"
  rooms :: "nat list"
  locations :: "nat list"
  objects :: "nat list"
  children :: "nat \<Rightarrow> nat list"
  category :: "nat \<Rightarrow> val"
  parent :: "nat \<Rightarrow> val"

text \<open>
  A Python \<^verbatim>\<open>set\<close> of categories is kept as a list without repetition;
  \<open>set_add\<close> is \<^verbatim>\<open>s.add(c)\<close>. Python leaves the iteration order of a set open;
  the list fixes insertion order, and the theorems below speak of membership and
  multiplicity only.
\<close>

definition set_add :: "val \<Rightarrow> val list \<Rightarrow> val list" where
  "set_add c cs = (if c \<in> set cs then cs else cs @ [c])"

text \<open>\<^verbatim>\<open>init.remove(x)\<close>: drops the first element equal to \<open>x\<close>, raises when there is none.\<close>

definition list_remove :: "fact \<Rightarrow> fact list \<Rightarrow> error + fact list" where
  "list_remove x xs = (if x \<in> set xs then Inr (remove1 x xs) else Inl ValueError)"

section \<open>world_to_pddlstream_init\<close>

text \<open>\<^verbatim>\<open>for room in world.rooms: init.append(("Room", room)); init.append(("Location", room))\<close>\<close>

fun room_loop :: "nat list \<Rightarrow> fact list \<Rightarrow> fact list" where
  "room_loop [] init = init"
| "room_loop (room # rest) init =
     room_loop rest (init @ [[Str ''Room'', Ref room]] @ [[Str ''Location'', Ref room]])"

text \<open>\<^verbatim>\<open>for spawn in loc.children: ...\<close>, the inner loop over one location.\<close>

fun spawn_loop :: "world \<Rightarrow> nat \<Rightarrow> nat list \<Rightarrow> fact list \<Rightarrow> fact list" where
  "spawn_loop w loc [] init = init"
| "spawn_loop w loc (spawn # rest) init =
     spawn_loop w loc rest
       (init @ [[Str ''Location'', Ref spawn]]
             @ [[Str ''Is'', Ref spawn, category w loc]]
             @ [[Str ''AtRoom'', Ref spawn, parent w loc]])"

text \<open>\<^verbatim>\<open>for loc in world.locations: ...; loc_categories.add(loc.category)\<close>\<close>

fun loc_loop :: "world \<Rightarrow> nat list \<Rightarrow> fact list \<times> val list \<Rightarrow> fact list \<times> val list" where
  "loc_loop w [] (init, loc_categories) = (init, loc_categories)"
| "loc_loop w (loc # rest) (init, loc_categories) =
     loc_loop w rest
       (spawn_loop w loc (children w loc) init, set_add (category w loc) loc_categories)"

text \<open>\<^verbatim>\<open>for cat in categories: init.append(("Type", cat))\<close>\<close>

fun type_loop :: "val list \<Rightarrow> fact list \<Rightarrow> fact list" where
  "type_loop [] init = init"
| "type_loop (cat # rest) init = type_loop rest (init @ [[Str ''Type'', cat]])"

text \<open>
  The loop over \<^verbatim>\<open>world.objects\<close>. The retraction \<^verbatim>\<open>init.remove(("HandEmpty", robot))\<close>
  raises when the fact is no longer in the list, which ends the whole call.
\<close>

fun obj_loop :: "world \<Rightarrow> nat list \<Rightarrow> fact list \<times> val list \<Rightarrow> error + (fact list \<times> val list)" where
  "obj_loop w [] (init, obj_categories) = Inr (init, obj_categories)"
| "obj_loop w (obj # rest) (init, obj_categories) =
     (let init1 = init @ [[Str ''Obj'', Ref obj]] @ [[Str ''Is'', Ref obj, category w obj]] in
      if manipulated_object w = Ref obj then
        (case list_remove [Str ''HandEmpty'', Ref (robot w)] init1 of
           Inl e \<Rightarrow> Inl e
         | Inr init2 \<Rightarrow>
             obj_loop w rest
               (init2 @ [[Str ''Holding'', Ref (robot w), Ref obj]],
                set_add (category w obj) obj_categories))
      else
        obj_loop w rest
          (init1 @ [[Str ''At'', Ref obj, parent w obj]],
           set_add (category w obj) obj_categories))"

definition robot_init :: "world \<Rightarrow> fact list" where
  "robot_init w =
     (let init_loc = robot_location w;
          init_loc = (if \<not> truthy init_loc then get_location_from_pose w (robot_pose w)
                      else init_loc)
      in [[Str ''Robot'', Ref (robot w)],
          [Str ''HandEmpty'', Ref (robot w)],
          [Str ''At'', Ref (robot w), init_loc],
          [Str ''Pose'', robot_pose w],
          [Str ''AtPose'', Ref (robot w), robot_pose w]])"

definition world_to_pddlstream_init :: "world \<Rightarrow> error + fact list" where
  "world_to_pddlstream_init w =
     (let init = robot_init w;
          init = room_loop (rooms w) init;
          (init, loc_categories) = loc_loop w (locations w) (init, []);
          init = type_loop loc_categories init
      in case obj_loop w (objects w) (init, []) of
           Inl e \<Rightarrow> Inl e
         | Inr (init, obj_categories) \<Rightarrow> Inr (type_loop obj_categories init))"

section \<open>pddlstream_solution_to_plan\<close>

text \<open>An action of the planner's solution: a name and a tuple of positional arguments.\<close>

record pddl_action =
  name :: string
  args :: "val list"

text \<open>
  \<^verbatim>\<open>TaskAction\<close> and \<^verbatim>\<open>TaskPlan\<close> are imported from \<^verbatim>\<open>..actions\<close>, a module outside
  the two modelled here. A field the decoder never assigns keeps the constructor's
  default: that is \<open>None\<close> below, "unset".
\<close>

record TaskAction =
  act_type :: string
  object :: "val option"
  source_location :: "val option"
  target_location :: "val option"
  pose :: "val option"
  path :: "val option"

record 'c TaskPlan =
  actions :: "TaskAction list"
  total_cost :: 'c

text \<open>
  Modelled from the spec: the constructor \<^verbatim>\<open>TaskAction(name)\<close>, whose class is
  missing. The spec has the action's type tag determined from its name and every
  type-specific field unset; how the tag is read off the name is the parameter \<open>tag_of\<close>.
\<close>

definition mk_TaskAction :: "(string \<Rightarrow> string) \<Rightarrow> string \<Rightarrow> TaskAction" where
  "mk_TaskAction tag_of nm =
     \<lparr>act_type = tag_of nm, object = None, source_location = None,
      target_location = None, pose = None, path = None\<rparr>"

text \<open>\<^verbatim>\<open>xs[i]\<close> for a constant index \<open>i \<ge> 0\<close>: out of range raises.\<close>

definition index :: "val list \<Rightarrow> nat \<Rightarrow> error + val" where
  "index xs i = (if i < length xs then Inr (xs ! i) else Inl IndexError)"

text \<open>\<^verbatim>\<open>for arg in act_pddl.args[3:]: if isinstance(arg, Path): act.path = arg\<close>\<close>

fun path_scan :: "val list \<Rightarrow> TaskAction \<Rightarrow> TaskAction" where
  "path_scan [] act = act"
| "path_scan (arg # rest) act =
     path_scan rest (if isinstance_Path arg then act\<lparr>path := Some arg\<rparr> else act)"

text \<open>The body of the loop over the plan, up to the append.\<close>

definition decode_action :: "(string \<Rightarrow> string) \<Rightarrow> pddl_action \<Rightarrow> error + TaskAction" where
  "decode_action tag_of act_pddl =
     (let act = mk_TaskAction tag_of (name act_pddl) in
      if act_type act = ''navigate'' then
        (case index (args act_pddl) 1 of
           Inl e \<Rightarrow> Inl e
         | Inr a1 \<Rightarrow>
            (case index (args act_pddl) 2 of
               Inl e \<Rightarrow> Inl e
             | Inr a2 \<Rightarrow>
                 Inr (path_scan (drop 3 (args act_pddl))
                        (act\<lparr>source_location := Some a1, target_location := Some a2\<rparr>))))
      else if act_type act = ''pick'' \<or> act_type act = ''place'' then
        (case index (args act_pddl) 1 of
           Inl e \<Rightarrow> Inl e
         | Inr a1 \<Rightarrow>
            (case index (args act_pddl) 2 of
               Inl e \<Rightarrow> Inl e
             | Inr a2 \<Rightarrow>
                 (let act = act\<lparr>object := Some a1, target_location := Some a2\<rparr> in
                  if length (args act_pddl) > 3 then
                    (case index (args act_pddl) 3 of
                       Inl e \<Rightarrow> Inl e
                     | Inr a3 \<Rightarrow> Inr (act\<lparr>pose := Some a3\<rparr>))
                  else Inr act)))
      else Inr act)"

text \<open>\<^verbatim>\<open>for act_pddl in plan: ...; plan_out.actions.append(act)\<close>\<close>

fun plan_loop :: "(string \<Rightarrow> string) \<Rightarrow> pddl_action list \<Rightarrow> TaskAction list
    \<Rightarrow> error + TaskAction list" where
  "plan_loop tag_of [] acts = Inr acts"
| "plan_loop tag_of (act_pddl # rest) acts =
     (case decode_action tag_of act_pddl of
        Inl e \<Rightarrow> Inl e
      | Inr act \<Rightarrow> plan_loop tag_of rest (acts @ [act]))"

text \<open>
  The solution is the triple \<^verbatim>\<open>(plan, total_cost, _)\<close>; \<open>None\<close> in the result is the
  Python \<^verbatim>\<open>None\<close> the function returns for "no plan". The plan is built with the
  cost that \<^verbatim>\<open>plan_out.total_cost = total_cost\<close> gives it before the return (\<open>cost\<close>
  below, the selector having taken the name); the cost is copied, so its type is left open.
\<close>

definition pddlstream_solution_to_plan ::
  "(string \<Rightarrow> string) \<Rightarrow> pddl_action list option \<times> 'c \<times> 'm \<Rightarrow> error + 'c TaskPlan option" where
  "pddlstream_solution_to_plan tag_of solution =
     (case solution of (plan, cost, _) \<Rightarrow>
        (case plan of
           None \<Rightarrow> Inr None
         | Some p \<Rightarrow>
             if length p = 0 then Inr None
             else (case plan_loop tag_of p [] of
                     Inl e \<Rightarrow> Inl e
                   | Inr acts \<Rightarrow> Inr (Some \<lparr>actions = acts, total_cost = cost\<rparr>))))"

text \<open>The tags the decoder knows, and the arguments it needs of them.\<close>

definition recognized :: "(string \<Rightarrow> string) \<Rightarrow> pddl_action \<Rightarrow> bool" where
  "recognized tag_of a =
     (tag_of (name a) = ''navigate'' \<or> tag_of (name a) = ''pick'' \<or> tag_of (name a) = ''place'')"

section \<open>Vocabulary for the encoder's output\<close>

text \<open>A \<open>Holding\<close> fact of robot \<open>r\<close>: the tuple \<^verbatim>\<open>("Holding", r, o)\<close> for some \<open>o\<close>.\<close>

fun is_Holding :: "nat \<Rightarrow> fact \<Rightarrow> bool" where
  "is_Holding r [p, a, b] = (p = Str ''Holding'' \<and> a = Ref r)"
| "is_Holding r f = False"

text \<open>How many entries of a list of objects the robot's manipulated-object reference equals.\<close>

definition times_held :: "world \<Rightarrow> nat list \<Rightarrow> nat" where
  "times_held w objs = length (filter (\<lambda>obj. manipulated_object w = Ref obj) objs)"

text \<open>The categories collected from a list of entities into a set.\<close>

definition collect_categories :: "world \<Rightarrow> nat list \<Rightarrow> val list \<Rightarrow> val list" where
  "collect_categories w xs cats = fold (\<lambda>x cs. set_add (category w x) cs) xs cats"

text \<open>What each loop appends for one element, and the facts before the loop over the objects.\<close>

definition room_facts :: "nat \<Rightarrow> fact list" where
  "room_facts room = [[Str ''Room'', Ref room], [Str ''Location'', Ref room]]"

definition spawn_facts :: "world \<Rightarrow> nat \<Rightarrow> nat \<Rightarrow> fact list" where
  "spawn_facts w loc spawn =
     [[Str ''Location'', Ref spawn], [Str ''Is'', Ref spawn, category w loc],
      [Str ''AtRoom'', Ref spawn, parent w loc]]"

definition loc_facts :: "world \<Rightarrow> nat \<Rightarrow> fact list" where
  "loc_facts w loc = concat (map (spawn_facts w loc) (children w loc))"

definition type_facts :: "val list \<Rightarrow> fact list" where
  "type_facts cats = map (\<lambda>c. [Str ''Type'', c]) cats"

definition obj_facts :: "world \<Rightarrow> nat \<Rightarrow> fact list" where
  "obj_facts w obj =
     [[Str ''Obj'', Ref obj], [Str ''Is'', Ref obj, category w obj],
      (if manipulated_object w = Ref obj then [Str ''Holding'', Ref (robot w), Ref obj]
       else [Str ''At'', Ref obj, parent w obj])]"

definition pre_facts :: "world \<Rightarrow> fact list" where
  "pre_facts w =
     robot_init w @ concat (map room_facts (rooms w)) @ concat (map (loc_facts w) (locations w))
       @ type_facts (collect_categories w (locations w) [])"

definition all_facts :: "world \<Rightarrow> fact list" where
  "all_facts w =
     pre_facts w @ concat (map (obj_facts w) (objects w))
       @ type_facts (collect_categories w (objects w) [])"

section \<open>Worlds to run the encoder on\<close>

text \<open>
  A room (1) holding a location (2) of category table with one spawn (3); an object (4)
  of category apple lying at the spawn; the robot (0) at the spawn with pose 9 and an
  empty hand.
\<close>

definition example_world :: world where
  "example_world =
     \<lparr>robot = 0, robot_location = Ref 3, robot_pose = Ref 9, manipulated_object = NoneV,
      get_location_from_pose = (\<lambda>p. NoneV),
      rooms = [1], locations = [2], objects = [4],
      children = (\<lambda>x. if x = 2 then [3] else []),
      category = (\<lambda>x. if x = 2 then Str ''table'' else if x = 4 then Str ''apple'' else NoneV),
      parent = (\<lambda>x. if x = 2 then Ref 1 else if x = 4 then Ref 3 else NoneV)\<rparr>"

definition example_facts :: "fact list" where
  "example_facts =
     [[Str ''Robot'', Ref 0], [Str ''HandEmpty'', Ref 0], [Str ''At'', Ref 0, Ref 3],
      [Str ''Pose'', Ref 9], [Str ''AtPose'', Ref 0, Ref 9],
      [Str ''Room'', Ref 1], [Str ''Location'', Ref 1],
      [Str ''Location'', Ref 3], [Str ''Is'', Ref 3, Str ''table''], [Str ''AtRoom'', Ref 3, Ref 1],
      [Str ''Type'', Str ''table''],
      [Str ''Obj'', Ref 4], [Str ''Is'', Ref 4, Str ''apple''], [Str ''At'', Ref 4, Ref 3],
      [Str ''Type'', Str ''apple'']]"

text \<open>The same world with the robot holding the object.\<close>

definition holding_world :: world where
  "holding_world = example_world\<lparr>manipulated_object := Ref 4\<rparr>"

definition holding_facts :: "fact list" where
  "holding_facts =
     [[Str ''Robot'', Ref 0], [Str ''At'', Ref 0, Ref 3],
      [Str ''Pose'', Ref 9], [Str ''AtPose'', Ref 0, Ref 9],
      [Str ''Room'', Ref 1], [Str ''Location'', Ref 1],
      [Str ''Location'', Ref 3], [Str ''Is'', Ref 3, Str ''table''], [Str ''AtRoom'', Ref 3, Ref 1],
      [Str ''Type'', Str ''table''],
      [Str ''Obj'', Ref 4], [Str ''Is'', Ref 4, Str ''apple''], [Str ''Holding'', Ref 0, Ref 4],
      [Str ''Type'', Str ''apple'']]"

text \<open>The same world with the robot's reference on an object (5) that the world does not list.\<close>

definition dangling_world :: world where
  "dangling_world = example_world\<lparr>manipulated_object := Ref 5\<rparr>"

text \<open>The same world with no recorded robot location; the lookup by pose finds none either.\<close>

definition lost_world :: world where
  "lost_world = example_world\<lparr>robot_location := NoneV\<rparr>"

definition lost_facts :: "fact list" where
  "lost_facts =
     [[Str ''Robot'', Ref 0], [Str ''HandEmpty'', Ref 0], [Str ''At'', Ref 0, NoneV],
      [Str ''Pose'', Ref 9], [Str ''AtPose'', Ref 0, Ref 9],
      [Str ''Room'', Ref 1], [Str ''Location'', Ref 1],
      [Str ''Location'', Ref 3], [Str ''Is'', Ref 3, Str ''table''], [Str ''AtRoom'', Ref 3, Ref 1],
      [Str ''Type'', Str ''table''],
      [Str ''Obj'', Ref 4], [Str ''Is'', Ref 4, Str ''apple''], [Str ''At'', Ref 4, Ref 3],
      [Str ''Type'', Str ''apple'']]"

text \<open>The same world with the object's category the one of the location.\<close>

definition table_world :: world where
  "table_world =
     example_world\<lparr>category := (\<lambda>x. if x = 2 \<or> x = 4 then Str ''table'' else NoneV)\<rparr>"

definition table_facts :: "fact list" where
  "table_facts =
     [[Str ''Robot'', Ref 0], [Str ''HandEmpty'', Ref 0], [Str ''At'', Ref 0, Ref 3],
      [Str ''Pose'', Ref 9], [Str ''AtPose'', Ref 0, Ref 9],
      [Str ''Room'', Ref 1], [Str ''Location'', Ref 1],
      [Str ''Location'', Ref 3], [Str ''Is'', Ref 3, Str ''table''], [Str ''AtRoom'', Ref 3, Ref 1],
      [Str ''Type'', Str ''table''],
      [Str ''Obj'', Ref 4], [Str ''Is'', Ref 4, Str ''table''], [Str ''At'', Ref 4, Ref 3],
      [Str ''Type'', Str ''table'']]"

section \<open>The decoder on an absent or empty plan\<close>

text \<open>
  C3. When the solution's action sequence is absent (\<^verbatim>\<open>None\<close>) or has length zero,
  \<open>pddlstream_solution_to_plan\<close> returns the no-plan value \<^verbatim>\<open>None\<close>: neither a
  \<open>TaskPlan\<close> with no actions nor an exception.
\<close>

theorem C3_no_plan_sentinel:
  "pddlstream_solution_to_plan tag_of (None, cost, meta) = Inr None
   \<and> pddlstream_solution_to_plan tag_of (Some [], cost, meta) = Inr None"
  by (simp add: pddlstream_solution_to_plan_def)

section \<open>Decoding one action and the plan loop\<close>

lemma path_scan_eq:
  "path_scan xs act =
     act\<lparr>path := (case filter isinstance_Path xs of [] \<Rightarrow> path act | p # ps \<Rightarrow> Some (last (p # ps)))\<rparr>"
proof (induction xs arbitrary: act)
  case Nil
  then show ?case by simp
next
  case (Cons x xs)
  then show ?case by (cases "filter isinstance_Path xs") auto
qed

lemma decode_action_unrecognized:
  "\<not> recognized tag_of a \<Longrightarrow> decode_action tag_of a = Inr (mk_TaskAction tag_of (name a))"
  by (simp add: decode_action_def recognized_def mk_TaskAction_def)

lemma decode_action_short:
  "recognized tag_of a \<Longrightarrow> length (args a) < 3 \<Longrightarrow> decode_action tag_of a = Inl IndexError"
  by (auto simp: decode_action_def recognized_def mk_TaskAction_def index_def Let_def)

lemma decode_action_navigate:
  "tag_of (name a) = ''navigate'' \<Longrightarrow> 3 \<le> length (args a) \<Longrightarrow>
   decode_action tag_of a =
     Inr \<lparr>act_type = ''navigate'', object = None, source_location = Some (args a ! 1),
          target_location = Some (args a ! 2), pose = None,
          path = (case filter isinstance_Path (drop 3 (args a)) of
                    [] \<Rightarrow> None | p # ps \<Rightarrow> Some (last (p # ps)))\<rparr>"
  by (simp add: decode_action_def mk_TaskAction_def index_def Let_def path_scan_eq split: list.splits)

lemma decode_action_pick_place:
  "tag_of (name a) = ''pick'' \<or> tag_of (name a) = ''place'' \<Longrightarrow> 3 \<le> length (args a) \<Longrightarrow>
   decode_action tag_of a =
     Inr \<lparr>act_type = tag_of (name a), object = Some (args a ! 1), source_location = None,
          target_location = Some (args a ! 2),
          pose = (if 3 < length (args a) then Some (args a ! 3) else None),
          path = None\<rparr>"
  by (auto simp: decode_action_def mk_TaskAction_def index_def Let_def)


lemma decode_action_Inl_iff:
  "decode_action tag_of a = Inl e \<longleftrightarrow> e = IndexError \<and> recognized tag_of a \<and> length (args a) < 3"
proof (cases "recognized tag_of a")
  case False
  then show ?thesis by (simp add: decode_action_unrecognized)
next
  case True
  show ?thesis
  proof (cases "length (args a) < 3")
    case True
    with \<open>recognized tag_of a\<close> show ?thesis by (auto simp: decode_action_short)
  next
    case False
    then have "3 \<le> length (args a)" by simp
    with \<open>recognized tag_of a\<close> show ?thesis
      by (auto simp: recognized_def decode_action_navigate decode_action_pick_place)
  qed
qed

lemma plan_loop_Inr_iff:
  "plan_loop tag_of p acts = Inr r \<longleftrightarrow>
     (\<exists>ds. r = acts @ ds \<and> list_all2 (\<lambda>a d. decode_action tag_of a = Inr d) p ds)"
proof (induction p arbitrary: acts)
  case Nil
  then show ?case by auto
next
  case (Cons a p)
  show ?case
  proof (cases "decode_action tag_of a")
    case (Inl e)
    then show ?thesis by (auto simp: list_all2_Cons1)
  next
    case (Inr d)
    then show ?thesis by (auto simp: Cons.IH list_all2_Cons1)
  qed
qed

lemma plan_loop_Inl_iff:
  "plan_loop tag_of p acts = Inl e \<longleftrightarrow>
     e = IndexError \<and> (\<exists>a\<in>set p. recognized tag_of a \<and> length (args a) < 3)"
proof (induction p arbitrary: acts)
  case Nil
  then show ?case by simp
next
  case (Cons a p)
  show ?case
  proof (cases "decode_action tag_of a")
    case (Inl e')
    then show ?thesis using decode_action_Inl_iff [of tag_of a e'] by auto
  next
    case (Inr d)
    then have "\<not> (recognized tag_of a \<and> length (args a) < 3)"
      using decode_action_Inl_iff [of tag_of a IndexError] by auto
    with Inr show ?thesis by (auto simp: Cons.IH)
  qed
qed


lemma solution_to_plan_ok:
  assumes "p \<noteq> []" and "\<forall>a\<in>set p. recognized tag_of a \<longrightarrow> 3 \<le> length (args a)"
  shows "\<exists>acts. pddlstream_solution_to_plan tag_of (Some p, cost, meta)
                  = Inr (Some \<lparr>actions = acts, total_cost = cost\<rparr>)
               \<and> list_all2 (\<lambda>a d. decode_action tag_of a = Inr d) p acts"
proof (cases "plan_loop tag_of p []")
  case (Inl e)
  then have "\<exists>a\<in>set p. recognized tag_of a \<and> length (args a) < 3"
    by (simp add: plan_loop_Inl_iff)
  with assms(2) show ?thesis by fastforce
next
  case (Inr acts)
  then have "list_all2 (\<lambda>a d. decode_action tag_of a = Inr d) p acts"
    by (simp add: plan_loop_Inr_iff)
  with Inr assms(1) show ?thesis
    by (simp add: pddlstream_solution_to_plan_def)
qed

text \<open>
  C10. The decoder reads \<^verbatim>\<open>args[1]\<close> and \<^verbatim>\<open>args[2]\<close> of every action whose tag is
  navigate, pick or place without a length check: such an action with fewer than three
  arguments makes the decoding of that action, and of any plan holding it, end in
  \<^verbatim>\<open>IndexError\<close>; and the decoder returns a value exactly when every recognized action
  of the plan has at least three arguments.
\<close>

theorem C10_index_error:
  "(\<forall>a. recognized tag_of a \<and> length (args a) < 3 \<longrightarrow> decode_action tag_of a = Inl IndexError)
   \<and> ((\<exists>a\<in>set p. recognized tag_of a \<and> length (args a) < 3)
        \<longrightarrow> pddlstream_solution_to_plan tag_of (Some p, cost, meta) = Inl IndexError)
   \<and> ((\<exists>r. pddlstream_solution_to_plan tag_of (Some p, cost, meta) = Inr r)
        \<longleftrightarrow> (\<forall>a\<in>set p. recognized tag_of a \<longrightarrow> 3 \<le> length (args a)))"
proof (intro conjI)
  show "\<forall>a. recognized tag_of a \<and> length (args a) < 3 \<longrightarrow> decode_action tag_of a = Inl IndexError"
    by (simp add: decode_action_short)
next
  show "(\<exists>a\<in>set p. recognized tag_of a \<and> length (args a) < 3)
        \<longrightarrow> pddlstream_solution_to_plan tag_of (Some p, cost, meta) = Inl IndexError"
  proof
    assume short: "\<exists>a\<in>set p. recognized tag_of a \<and> length (args a) < 3"
    then have "plan_loop tag_of p [] = Inl IndexError"
      by (simp add: plan_loop_Inl_iff)
    moreover from short have "p \<noteq> []" by auto
    ultimately show "pddlstream_solution_to_plan tag_of (Some p, cost, meta) = Inl IndexError"
      by (simp add: pddlstream_solution_to_plan_def)
  qed
next
  show "(\<exists>r. pddlstream_solution_to_plan tag_of (Some p, cost, meta) = Inr r)
        \<longleftrightarrow> (\<forall>a\<in>set p. recognized tag_of a \<longrightarrow> 3 \<le> length (args a))"
  proof (cases "p = []")
    case True
    then show ?thesis by (simp add: pddlstream_solution_to_plan_def)
  next
    case False
    show ?thesis
    proof
      assume "\<exists>r. pddlstream_solution_to_plan tag_of (Some p, cost, meta) = Inr r"
      then obtain acts where "plan_loop tag_of p [] = Inr acts"
        using False by (auto simp: pddlstream_solution_to_plan_def split: sum.splits)
      then have "\<not> (\<exists>a\<in>set p. recognized tag_of a \<and> length (args a) < 3)"
        using plan_loop_Inl_iff [of tag_of p "[]" IndexError] by simp
      then show "\<forall>a\<in>set p. recognized tag_of a \<longrightarrow> 3 \<le> length (args a)"
        by (meson not_less)
    next
      assume "\<forall>a\<in>set p. recognized tag_of a \<longrightarrow> 3 \<le> length (args a)"
      from solution_to_plan_ok [OF False this, of cost meta]
      show "\<exists>r. pddlstream_solution_to_plan tag_of (Some p, cost, meta) = Inr r"
        by blast
    qed
  qed
qed

theorem C10_index_error_witness:
  "pddlstream_solution_to_plan (\<lambda>s. s)
     (Some [\<lparr>name = ''move'', args = []\<rparr>, \<lparr>name = ''pick'', args = [Ref 0, Ref 1]\<rparr>], 1::nat, ())
     = Inl IndexError"
  using C10_index_error [of "\<lambda>s. s"
      "[\<lparr>name = ''move'', args = []\<rparr>, \<lparr>name = ''pick'', args = [Ref 0, Ref 1]\<rparr>]" "1::nat" "()"]
  by (simp add: recognized_def)




text \<open>
  C2. On a non-empty plan (recognized actions with their three arguments, see C10) each
  action is decoded by position. Navigate: source location \<^verbatim>\<open>args[1]\<close>, target location
  \<^verbatim>\<open>args[2]\<close>, and as path the argument of type \<^verbatim>\<open>Path\<close> among \<^verbatim>\<open>args[3:]\<close> (the last
  one when there are several), unset when there is none. Pick and place: object
  \<^verbatim>\<open>args[1]\<close>, target location \<^verbatim>\<open>args[2]\<close>, pose \<^verbatim>\<open>args[3]\<close> exactly when there is a
  fourth argument, unset otherwise. The plan's total cost is the solution's.
\<close>

theorem C2_positional_decoding:
  assumes "p \<noteq> []" and "\<forall>a\<in>set p. recognized tag_of a \<longrightarrow> 3 \<le> length (args a)"
  shows "\<exists>tp. pddlstream_solution_to_plan tag_of (Some p, cost, meta) = Inr (Some tp)
     \<and> total_cost tp = cost
     \<and> length (actions tp) = length p
     \<and> (\<forall>i<length p.
          (tag_of (name (p ! i)) = ''navigate'' \<longrightarrow>
             source_location (actions tp ! i) = Some (args (p ! i) ! 1)
           \<and> target_location (actions tp ! i) = Some (args (p ! i) ! 2)
           \<and> path (actions tp ! i) =
               (case filter isinstance_Path (drop 3 (args (p ! i))) of
                  [] \<Rightarrow> None
                | x # xs \<Rightarrow> Some (last (x # xs))))
        \<and> (tag_of (name (p ! i)) = ''pick'' \<or> tag_of (name (p ! i)) = ''place'' \<longrightarrow>
             object (actions tp ! i) = Some (args (p ! i) ! 1)
           \<and> target_location (actions tp ! i) = Some (args (p ! i) ! 2)
           \<and> pose (actions tp ! i) =
               (if 3 < length (args (p ! i)) then Some (args (p ! i) ! 3) else None)))"
proof -
  from solution_to_plan_ok [OF assms, of cost meta] obtain acts where
    res: "pddlstream_solution_to_plan tag_of (Some p, cost, meta)
            = Inr (Some \<lparr>actions = acts, total_cost = cost\<rparr>)"
    and all2: "list_all2 (\<lambda>a d. decode_action tag_of a = Inr d) p acts"
    by blast
  have len: "length acts = length p"
    using all2 by (simp add: list_all2_lengthD)
  have nav: "source_location (acts ! i) = Some (args (p ! i) ! 1)
           \<and> target_location (acts ! i) = Some (args (p ! i) ! 2)
           \<and> path (acts ! i) =
               (case filter isinstance_Path (drop 3 (args (p ! i))) of
                  [] \<Rightarrow> None
                | x # xs \<Rightarrow> Some (last (x # xs)))"
    if "i < length p" and tag: "tag_of (name (p ! i)) = ''navigate''" for i
  proof -
    have d: "decode_action tag_of (p ! i) = Inr (acts ! i)"
      using list_all2_nthD [OF all2 that(1)] by simp
    have "3 \<le> length (args (p ! i))"
      using assms(2) that by (simp add: recognized_def)
    from decode_action_navigate [of tag_of "p ! i", OF tag this] d show ?thesis
      by (cases "acts ! i") simp
  qed
  have pp: "object (acts ! i) = Some (args (p ! i) ! 1)
           \<and> target_location (acts ! i) = Some (args (p ! i) ! 2)
           \<and> pose (acts ! i) =
               (if 3 < length (args (p ! i)) then Some (args (p ! i) ! 3) else None)"
    if "i < length p"
      and tag: "tag_of (name (p ! i)) = ''pick'' \<or> tag_of (name (p ! i)) = ''place''" for i
  proof -
    have d: "decode_action tag_of (p ! i) = Inr (acts ! i)"
      using list_all2_nthD [OF all2 that(1)] by simp
    have "3 \<le> length (args (p ! i))"
      using assms(2) that by (auto simp: recognized_def)
    from decode_action_pick_place [of tag_of "p ! i", OF tag this] d show ?thesis
      by (cases "acts ! i") simp
  qed
  from res len nav pp show ?thesis by simp
qed

theorem C2_positional_decoding_witness:
  "\<exists>tp. pddlstream_solution_to_plan (\<lambda>s. s)
           (Some [\<lparr>name = ''navigate'', args = [Ref 0, Ref 1, Ref 2, PathV 9]\<rparr>,
                  \<lparr>name = ''pick'', args = [Ref 0, Ref 7, Ref 1]\<rparr>], 45::nat, ()) = Inr (Some tp)
     \<and> total_cost tp = 45
     \<and> source_location (actions tp ! 0) = Some (Ref 1)
     \<and> target_location (actions tp ! 0) = Some (Ref 2)
     \<and> path (actions tp ! 0) = Some (PathV 9)
     \<and> object (actions tp ! 1) = Some (Ref 7)
     \<and> target_location (actions tp ! 1) = Some (Ref 1)
     \<and> pose (actions tp ! 1) = None"
proof -
  let ?p = "[\<lparr>name = ''navigate'', args = [Ref 0, Ref 1, Ref 2, PathV 9]\<rparr>,
             \<lparr>name = ''pick'', args = [Ref 0, Ref 7, Ref 1]\<rparr>]"
  have h1: "?p \<noteq> []" by simp
  have h2: "\<forall>a\<in>set ?p. recognized (\<lambda>s. s) a \<longrightarrow> 3 \<le> length (args a)" by simp
  from C2_positional_decoding [OF h1 h2, of "45::nat" "()"] obtain tp where
    r: "pddlstream_solution_to_plan (\<lambda>s. s) (Some ?p, 45::nat, ()) = Inr (Some tp)"
    and c: "total_cost tp = 45"
    and a: "\<forall>i<length ?p.
          ((name (?p ! i)) = ''navigate'' \<longrightarrow>
             source_location (actions tp ! i) = Some (args (?p ! i) ! 1)
           \<and> target_location (actions tp ! i) = Some (args (?p ! i) ! 2)
           \<and> path (actions tp ! i) =
               (case filter isinstance_Path (drop 3 (args (?p ! i))) of
                  [] \<Rightarrow> None
                | x # xs \<Rightarrow> Some (last (x # xs))))
        \<and> ((name (?p ! i)) = ''pick'' \<or> (name (?p ! i)) = ''place'' \<longrightarrow>
             object (actions tp ! i) = Some (args (?p ! i) ! 1)
           \<and> target_location (actions tp ! i) = Some (args (?p ! i) ! 2)
           \<and> pose (actions tp ! i) =
               (if 3 < length (args (?p ! i)) then Some (args (?p ! i) ! 3) else None))"
    by blast
  from a [rule_format, of 0] a [rule_format, of 1] r c show ?thesis by simp
qed

section \<open>The encoder in closed form\<close>

lemma room_loop_eq: "room_loop rs init = init @ concat (map room_facts rs)"
  by (induction rs arbitrary: init) (simp_all add: room_facts_def)

lemma spawn_loop_eq: "spawn_loop w loc ss init = init @ concat (map (spawn_facts w loc) ss)"
  by (induction ss arbitrary: init) (simp_all add: spawn_facts_def)

lemma loc_loop_eq:
  "loc_loop w ls (init, cats) =
     (init @ concat (map (loc_facts w) ls), collect_categories w ls cats)"
  by (induction ls arbitrary: init cats)
     (simp_all add: loc_facts_def spawn_loop_eq collect_categories_def)

lemma type_loop_eq: "type_loop cs init = init @ type_facts cs"
  by (induction cs arbitrary: init) (simp_all add: type_facts_def)

lemma set_collect_categories:
  "set (collect_categories w xs cats) = set cats \<union> category w ` set xs"
  by (induction xs arbitrary: cats) (auto simp: collect_categories_def set_add_def)

lemma distinct_collect_categories:
  "distinct cats \<Longrightarrow> distinct (collect_categories w xs cats)"
  by (induction xs arbitrary: cats) (auto simp: collect_categories_def set_add_def)

lemma obj_loop_cats:
  "obj_loop w os (init, cats) = Inr (init', cats') \<Longrightarrow> cats' = collect_categories w os cats"
  by (induction os arbitrary: init cats)
     (auto simp: collect_categories_def Let_def split: if_splits sum.splits)

lemma obj_loop_mset:
  "obj_loop w os (init, cats) = Inr (init', cats') \<Longrightarrow>
   mset init' + replicate_mset (times_held w os) [Str ''HandEmpty'', Ref (robot w)]
     = mset init + mset (concat (map (obj_facts w) os))"
proof (induction os arbitrary: init cats)
  case Nil
  then show ?case by (simp add: times_held_def)
next
  case (Cons obj os)
  show ?case
  proof (cases "manipulated_object w = Ref obj")
    case True
    let ?init1 = "init @ [[Str ''Obj'', Ref obj]] @ [[Str ''Is'', Ref obj, category w obj]]"
    from Cons.prems True obtain init2 where
      rm: "list_remove [Str ''HandEmpty'', Ref (robot w)] ?init1 = Inr init2"
      and rest: "obj_loop w os (init2 @ [[Str ''Holding'', Ref (robot w), Ref obj]],
                   set_add (category w obj) cats) = Inr (init', cats')"
      by (auto simp: Let_def split: sum.splits)
    from rm have mem: "[Str ''HandEmpty'', Ref (robot w)] \<in> set ?init1"
      and i2: "init2 = remove1 [Str ''HandEmpty'', Ref (robot w)] ?init1"
      by (auto simp: list_remove_def split: if_splits)
    from mem i2 have "mset init2 + {#[Str ''HandEmpty'', Ref (robot w)]#} = mset ?init1"
      by simp
    with Cons.IH [OF rest] True show ?thesis
      by (simp add: times_held_def obj_facts_def)
  next
    case False
    with Cons.prems have
      rest: "obj_loop w os (init @ [[Str ''Obj'', Ref obj]] @ [[Str ''Is'', Ref obj, category w obj]]
                @ [[Str ''At'', Ref obj, parent w obj]],
                   set_add (category w obj) cats) = Inr (init', cats')"
      by (simp add: Let_def)
    from Cons.IH [OF rest] False show ?thesis
      by (simp add: times_held_def obj_facts_def)
  qed
qed

lemma obj_loop_returns_iff:
  "(\<exists>r. obj_loop w os (init, cats) = Inr r) \<longleftrightarrow>
     times_held w os \<le> count_list init [Str ''HandEmpty'', Ref (robot w)]"
proof (induction os arbitrary: init cats)
  case Nil
  then show ?case by (simp add: times_held_def)
next
  case (Cons obj os)
  let ?he = "[Str ''HandEmpty'', Ref (robot w)]"
  show ?case
  proof (cases "manipulated_object w = Ref obj")
    case True
    let ?init1 = "init @ [[Str ''Obj'', Ref obj]] @ [[Str ''Is'', Ref obj, category w obj]]"
    have c1: "count_list ?init1 ?he = count_list init ?he" by simp
    show ?thesis
    proof (cases "?he \<in> set init")
      case False
      then have "count_list init ?he = 0" by (simp add: count_list_0_iff)
      moreover from False have "list_remove ?he ?init1 = Inl ValueError"
        by (simp add: list_remove_def)
      ultimately show ?thesis using True by (simp add: times_held_def Let_def)
    next
      case mem: True
      then have pos: "0 < count_list init ?he"
        using count_list_0_iff [of init ?he] by simp
      from mem have rm: "list_remove ?he ?init1 = Inr (remove1 ?he ?init1)"
        by (simp add: list_remove_def)
      have "count (mset (remove1 ?he ?init1)) ?he = count (mset ?init1) ?he - 1"
        by simp
      then have c2: "count_list (remove1 ?he ?init1 @ [[Str ''Holding'', Ref (robot w), Ref obj]]) ?he
               = count_list init ?he - 1"
        by (simp add: count_mset)
      from Cons.IH [of "remove1 ?he ?init1 @ [[Str ''Holding'', Ref (robot w), Ref obj]]"
                       "set_add (category w obj) cats"] rm True pos c2
      show ?thesis by (auto simp: times_held_def Let_def)
    qed
  next
    case False
    from Cons.IH [of "init @ [[Str ''Obj'', Ref obj]] @ [[Str ''Is'', Ref obj, category w obj]]
                @ [[Str ''At'', Ref obj, parent w obj]]" "set_add (category w obj) cats"] False
    show ?thesis by (simp add: times_held_def Let_def)
  qed
qed


lemma obj_loop_to_init:
  "world_to_pddlstream_init w =
     (case obj_loop w (objects w) (pre_facts w, []) of
        Inl e \<Rightarrow> Inl e
      | Inr (init, obj_categories) \<Rightarrow> Inr (init @ type_facts obj_categories))"
  by (simp add: world_to_pddlstream_init_def pre_facts_def room_loop_eq loc_loop_eq
                type_loop_eq Let_def split: sum.splits)

lemma count_HandEmpty_pre:
  "count_list (pre_facts w) [Str ''HandEmpty'', Ref (robot w)] = 1"
proof -
  have "[Str ''HandEmpty'', Ref (robot w)] \<notin> set (concat (map room_facts (rooms w)))"
    by (auto simp: room_facts_def)
  moreover have "[Str ''HandEmpty'', Ref (robot w)] \<notin> set (concat (map (loc_facts w) (locations w)))"
    by (auto simp: loc_facts_def spawn_facts_def)
  moreover have "[Str ''HandEmpty'', Ref (robot w)]
                   \<notin> set (type_facts (collect_categories w (locations w) []))"
    by (auto simp: type_facts_def)
  ultimately show ?thesis
    by (simp add: pre_facts_def robot_init_def Let_def)
qed

lemma init_returns_iff:
  "(\<exists>facts. world_to_pddlstream_init w = Inr facts) \<longleftrightarrow> times_held w (objects w) \<le> 1"
proof -
  have "(\<exists>facts. world_to_pddlstream_init w = Inr facts)
          \<longleftrightarrow> (\<exists>r. obj_loop w (objects w) (pre_facts w, []) = Inr r)"
    by (auto simp: obj_loop_to_init split: sum.splits)
  also have "\<dots> \<longleftrightarrow> times_held w (objects w) \<le> 1"
    by (simp only: obj_loop_returns_iff count_HandEmpty_pre)
  finally show ?thesis .
qed

lemma init_mset:
  assumes "world_to_pddlstream_init w = Inr facts"
  shows "mset facts + replicate_mset (times_held w (objects w)) [Str ''HandEmpty'', Ref (robot w)]
           = mset (all_facts w)"
proof -
  from assms obtain init cats where
    loop: "obj_loop w (objects w) (pre_facts w, []) = Inr (init, cats)"
    and facts: "facts = init @ type_facts cats"
    by (auto simp: obj_loop_to_init split: sum.splits)
  from obj_loop_cats [OF loop] have cats: "cats = collect_categories w (objects w) []" .
  from obj_loop_mset [OF loop] facts cats show ?thesis
    by (simp add: all_facts_def)
qed

lemma init_raises:
  "world_to_pddlstream_init w = Inl e \<Longrightarrow> e = ValueError"
proof -
  have "obj_loop w os (init, cats) = Inl e \<Longrightarrow> e = ValueError" for os init cats
    by (induction os arbitrary: init cats)
       (auto simp: Let_def list_remove_def split: if_splits sum.splits)
  then show "world_to_pddlstream_init w = Inl e \<Longrightarrow> e = ValueError"
    by (auto simp: obj_loop_to_init split: sum.splits)
qed

lemma Holding_obj_facts1:
  "length (filter (is_Holding (robot w)) (obj_facts w obj))
     = (if manipulated_object w = Ref obj then 1 else 0)"
  by (simp add: obj_facts_def)

lemma Holding_obj_facts:
  "length (filter (is_Holding (robot w)) (concat (map (obj_facts w) os))) = times_held w os"
  by (induction os) (simp_all add: Holding_obj_facts1 times_held_def)

lemma Holding_pre: "filter (is_Holding r) (pre_facts w) = []"
proof -
  have "filter (is_Holding r) (concat (map room_facts rs)) = []" for rs
    by (induction rs) (simp_all add: room_facts_def)
  moreover have "filter (is_Holding r) (concat (map (spawn_facts w loc) ss)) = []" for loc ss
    by (induction ss) (simp_all add: spawn_facts_def)
  then have "filter (is_Holding r) (concat (map (loc_facts w) ls)) = []" for ls
    by (induction ls) (simp_all add: loc_facts_def)
  moreover have "filter (is_Holding r) (type_facts cs) = []" for cs
    by (induction cs) (simp_all add: type_facts_def)
  ultimately show ?thesis
    by (simp add: pre_facts_def robot_init_def Let_def)
qed

lemma Holding_all:
  "length (filter (is_Holding (robot w)) (all_facts w)) = times_held w (objects w)"
proof -
  have "filter (is_Holding (robot w)) (type_facts cs) = []" for cs
    by (induction cs) (simp_all add: type_facts_def)
  then show ?thesis
    by (simp add: all_facts_def Holding_pre Holding_obj_facts)
qed

lemma count_HandEmpty_all:
  "count_list (all_facts w) [Str ''HandEmpty'', Ref (robot w)] = 1"
proof -
  have "[Str ''HandEmpty'', Ref (robot w)] \<notin> set (concat (map (obj_facts w) (objects w)))"
    by (auto simp: obj_facts_def)
  moreover have "[Str ''HandEmpty'', Ref (robot w)]
                   \<notin> set (type_facts (collect_categories w (objects w) []))"
    by (auto simp: type_facts_def)
  ultimately show ?thesis
    by (simp add: all_facts_def count_HandEmpty_pre)
qed

text \<open>
  C1. The encoder returns a fact list exactly when the robot's manipulated-object
  reference equals at most one entry of \<^verbatim>\<open>world.objects\<close> (a second equal entry makes
  the second retraction raise), and every fact list it returns holds exactly one of the
  robot's hand facts: the number of \<open>HandEmpty(robot)\<close> facts plus the number of
  \<open>Holding(robot, _)\<close> facts is one, so never both and never neither.
\<close>

theorem C1_exactly_one_hand_fact:
  "((\<exists>facts. world_to_pddlstream_init w = Inr facts) \<longleftrightarrow> times_held w (objects w) \<le> 1)
   \<and> (\<forall>facts. world_to_pddlstream_init w = Inr facts \<longrightarrow>
         count_list facts [Str ''HandEmpty'', Ref (robot w)]
           + length (filter (is_Holding (robot w)) facts) = 1)"
proof (intro conjI allI impI)
  show "(\<exists>facts. world_to_pddlstream_init w = Inr facts) \<longleftrightarrow> times_held w (objects w) \<le> 1"
    by (rule init_returns_iff)
next
  fix facts
  assume r: "world_to_pddlstream_init w = Inr facts"
  let ?he = "[Str ''HandEmpty'', Ref (robot w)]"
  let ?m = "times_held w (objects w)"
  from r have m: "?m \<le> 1" using init_returns_iff [of w] by blast
  have eq: "mset facts + replicate_mset ?m ?he = mset (all_facts w)"
    by (rule init_mset [OF r])
  have "count (mset facts + replicate_mset ?m ?he) ?he = count (mset (all_facts w)) ?he"
    by (simp only: eq)
  then have he: "count_list facts ?he + ?m = 1"
    by (simp add: count_mset count_HandEmpty_all)
  have "filter (is_Holding (robot w)) (replicate n ?he) = []" for n
    by (induction n) simp_all
  moreover from eq have "mset (filter (is_Holding (robot w)) (facts @ replicate ?m ?he))
          = mset (filter (is_Holding (robot w)) (all_facts w))"
    by (simp only: mset_filter mset_append mset_replicate)
  then have "length (filter (is_Holding (robot w)) (facts @ replicate ?m ?he))
          = length (filter (is_Holding (robot w)) (all_facts w))"
    by (rule mset_eq_length)
  ultimately have "length (filter (is_Holding (robot w)) facts) = ?m"
    by (simp add: Holding_all)
  with he show "count_list facts ?he + length (filter (is_Holding (robot w)) facts) = 1"
    by simp
qed

section \<open>The encoder on the example worlds\<close>

lemmas enc_eval = world_to_pddlstream_init_def robot_init_def Let_def list_remove_def set_add_def

lemma run_example_world: "world_to_pddlstream_init example_world = Inr example_facts"
  by (simp add: enc_eval example_world_def example_facts_def)

lemma run_holding_world: "world_to_pddlstream_init holding_world = Inr holding_facts"
  by (simp add: enc_eval example_world_def holding_world_def holding_facts_def)

lemma run_dangling_world: "world_to_pddlstream_init dangling_world = Inr example_facts"
  by (simp add: enc_eval example_world_def dangling_world_def example_facts_def)

lemma run_lost_world: "world_to_pddlstream_init lost_world = Inr lost_facts"
  by (simp add: enc_eval example_world_def lost_world_def lost_facts_def)

lemma run_table_world: "world_to_pddlstream_init table_world = Inr table_facts"
  by (simp add: enc_eval example_world_def table_world_def table_facts_def)

theorem C1_exactly_one_hand_fact_witness:
  "world_to_pddlstream_init holding_world = Inr holding_facts
   \<and> count_list holding_facts [Str ''HandEmpty'', Ref 0]
       + length (filter (is_Holding 0) holding_facts) = 1"
  using C1_exactly_one_hand_fact [of holding_world] run_holding_world
  by (simp add: holding_world_def example_world_def)

section \<open>Members and multiplicities of the returned list\<close>

lemma init_set:
  assumes "world_to_pddlstream_init w = Inr facts"
  shows "set facts \<subseteq> set (all_facts w)"
    and "set (all_facts w) - {[Str ''HandEmpty'', Ref (robot w)]} \<subseteq> set facts"
proof -
  let ?he = "[Str ''HandEmpty'', Ref (robot w)]"
  have "set_mset (mset facts + replicate_mset (times_held w (objects w)) ?he)
          = set_mset (mset (all_facts w))"
    by (simp only: init_mset [OF assms])
  then have eq: "set facts \<union> (if times_held w (objects w) = 0 then {} else {?he})
                   = set (all_facts w)"
    by simp
  from eq show "set facts \<subseteq> set (all_facts w)" by blast
  from eq show "set (all_facts w) - {?he} \<subseteq> set facts"
    by (auto split: if_splits)
qed

lemma init_count:
  assumes "world_to_pddlstream_init w = Inr facts" and "f \<noteq> [Str ''HandEmpty'', Ref (robot w)]"
  shows "count_list facts f = count_list (all_facts w) f"
proof -
  have "count (mset facts + replicate_mset (times_held w (objects w))
                  [Str ''HandEmpty'', Ref (robot w)]) f = count (mset (all_facts w)) f"
    by (simp only: init_mset [OF assms(1)])
  with assms(2) show ?thesis by (simp add: count_mset)
qed

section \<open>A manipulated-object reference the world does not list\<close>

text \<open>
  C4, as stated, fails: in \<open>dangling_world\<close> the robot's reference is object 5, the
  world lists object 4 only, and the output has no \<open>Holding(robot, 5)\<close> and keeps
  \<open>HandEmpty(robot)\<close>.
\<close>

theorem C4_dangling_reference_counterexample:
  "manipulated_object dangling_world = Ref 5
   \<and> objects dangling_world = [4]
   \<and> world_to_pddlstream_init dangling_world = Inr example_facts
   \<and> [Str ''Holding'', Ref 0, Ref 5] \<notin> set example_facts
   \<and> [Str ''HandEmpty'', Ref 0] \<in> set example_facts"
  by (simp add: enc_eval example_world_def dangling_world_def example_facts_def)

text \<open>
  C4, amended. The \<open>Holding\<close> fact and the retraction are made inside the loop over
  \<^verbatim>\<open>world.objects\<close> only. When the manipulated-object reference points to an object that
  is not in that collection, the encoder returns a list that keeps \<open>HandEmpty(robot)\<close>
  and has no \<open>Holding\<close> fact of the robot, for that reference or any other.
\<close>

theorem C4_dangling_reference:
  assumes "manipulated_object w = Ref obj" and "obj \<notin> set (objects w)"
  shows "\<exists>facts. world_to_pddlstream_init w = Inr facts
           \<and> [Str ''HandEmpty'', Ref (robot w)] \<in> set facts
           \<and> [Str ''Holding'', Ref (robot w), Ref obj] \<notin> set facts
           \<and> filter (is_Holding (robot w)) facts = []"
proof -
  let ?he = "[Str ''HandEmpty'', Ref (robot w)]"
  from assms have "filter (\<lambda>x. manipulated_object w = Ref x) (objects w) = []"
    by (auto simp: filter_empty_conv)
  then have m: "times_held w (objects w) = 0"
    by (simp add: times_held_def)
  then obtain facts where r: "world_to_pddlstream_init w = Inr facts"
    using init_returns_iff [of w] by auto
  from init_mset [OF r] m have eq: "mset facts = mset (all_facts w)" by simp
  then have "count_list facts ?he = count_list (all_facts w) ?he"
    by (metis count_mset)
  then have he: "?he \<in> set facts"
    using count_list_0_iff [of facts ?he] by (simp add: count_HandEmpty_all)
  from eq have "mset (filter (is_Holding (robot w)) facts)
                  = mset (filter (is_Holding (robot w)) (all_facts w))"
    by (simp only: mset_filter)
  then have "length (filter (is_Holding (robot w)) facts)
               = length (filter (is_Holding (robot w)) (all_facts w))"
    by (rule mset_eq_length)
  with m have none: "filter (is_Holding (robot w)) facts = []"
    by (simp add: Holding_all)
  then have "[Str ''Holding'', Ref (robot w), Ref obj] \<notin> set facts"
    by (auto simp: filter_empty_conv)
  with r he none show ?thesis by blast
qed

theorem C4_dangling_reference_witness:
  "world_to_pddlstream_init dangling_world = Inr example_facts
   \<and> [Str ''HandEmpty'', Ref 0] \<in> set example_facts
   \<and> filter (is_Holding 0) example_facts = []"
proof -
  have h1: "manipulated_object dangling_world = Ref 5"
    by (simp add: dangling_world_def)
  have h2: "5 \<notin> set (objects dangling_world)"
    by (simp add: dangling_world_def example_world_def)
  from C4_dangling_reference [OF h1 h2] run_dangling_world show ?thesis
    by (simp add: dangling_world_def example_world_def)
qed

section \<open>The robot's location fact\<close>

text \<open>
  C5, as stated, fails: in \<open>lost_world\<close> the robot has no recorded location and the
  lookup by pose yields \<^verbatim>\<open>None\<close>; the output still has an \<open>At\<close> fact for the robot,
  with \<^verbatim>\<open>None\<close> as its location.
\<close>

theorem C5_location_unknown_counterexample:
  "robot_location lost_world = NoneV
   \<and> get_location_from_pose lost_world (robot_pose lost_world) = NoneV
   \<and> world_to_pddlstream_init lost_world = Inr lost_facts
   \<and> [Str ''At'', Ref 0, NoneV] \<in> set lost_facts"
  by (simp add: enc_eval example_world_def lost_world_def lost_facts_def)

text \<open>
  C5, amended. When the robot has no recorded current location and the lookup by pose
  yields \<^verbatim>\<open>None\<close>, the encoder does not raise on that account (its one exception is the
  \<^verbatim>\<open>ValueError\<close> of the retraction, when the held object is listed more than once), and
  it does not omit the fact: every list it returns contains \<open>At(robot, None)\<close>.
\<close>

theorem C5_location_unknown:
  assumes "\<not> truthy (robot_location w)"
    and "get_location_from_pose w (robot_pose w) = NoneV"
  shows "(\<forall>e. world_to_pddlstream_init w = Inl e \<longrightarrow>
             e = ValueError \<and> 1 < times_held w (objects w))
       \<and> (\<forall>facts. world_to_pddlstream_init w = Inr facts \<longrightarrow>
             [Str ''At'', Ref (robot w), NoneV] \<in> set facts)"
proof (intro conjI allI impI)
  fix e
  assume l: "world_to_pddlstream_init w = Inl e"
  then show "e = ValueError" by (rule init_raises)
  from l have "\<not> (\<exists>facts. world_to_pddlstream_init w = Inr facts)" by simp
  then show "1 < times_held w (objects w)"
    by (simp add: init_returns_iff)
next
  fix facts
  assume r: "world_to_pddlstream_init w = Inr facts"
  from assms have "[Str ''At'', Ref (robot w), NoneV] \<in> set (all_facts w)"
    by (simp add: all_facts_def pre_facts_def robot_init_def Let_def)
  with init_set(2) [OF r] show "[Str ''At'', Ref (robot w), NoneV] \<in> set facts"
    by auto
qed

theorem C5_location_unknown_witness:
  "world_to_pddlstream_init lost_world = Inr lost_facts
   \<and> [Str ''At'', Ref 0, NoneV] \<in> set lost_facts"
proof -
  have h1: "\<not> truthy (robot_location lost_world)"
    by (simp add: lost_world_def)
  have h2: "get_location_from_pose lost_world (robot_pose lost_world) = NoneV"
    by (simp add: lost_world_def example_world_def)
  from C5_location_unknown [OF h1 h2] run_lost_world show ?thesis
    by (simp add: lost_world_def example_world_def)
qed

section \<open>The pose fact\<close>

lemma Pose_all_facts:
  assumes "f \<in> set (all_facts w)" and "hd f = Str ''Pose''"
  shows "f = [Str ''Pose'', robot_pose w]"
proof -
  from assms(1) consider
      "f \<in> set (robot_init w)"
    | "f \<in> set (concat (map room_facts (rooms w)))"
    | "f \<in> set (concat (map (loc_facts w) (locations w)))"
    | "f \<in> set (type_facts (collect_categories w (locations w) []))"
    | "f \<in> set (concat (map (obj_facts w) (objects w)))"
    | "f \<in> set (type_facts (collect_categories w (objects w) []))"
    by (auto simp: all_facts_def pre_facts_def)
  then show ?thesis
  proof cases
    case 1
    with assms(2) show ?thesis by (auto simp: robot_init_def Let_def)
  next
    case 2
    with assms(2) show ?thesis by (auto simp: room_facts_def)
  next
    case 3
    with assms(2) show ?thesis by (auto simp: loc_facts_def spawn_facts_def)
  next
    case 4
    with assms(2) show ?thesis by (auto simp: type_facts_def)
  next
    case 5
    with assms(2) show ?thesis by (auto simp: obj_facts_def split: if_splits)
  next
    case 6
    with assms(2) show ?thesis by (auto simp: type_facts_def)
  qed
qed

text \<open>
  C6, as stated, fails: the output for \<open>example_world\<close> (robot 0, pose 9) has no fact
  \<open>Pose(robot, pose)\<close> of two arguments.
\<close>

theorem C6_pose_fact_counterexample:
  "robot example_world = 0 \<and> robot_pose example_world = Ref 9
   \<and> world_to_pddlstream_init example_world = Inr example_facts
   \<and> [Str ''Pose'', Ref 0, Ref 9] \<notin> set example_facts"
  by (simp add: enc_eval example_world_def example_facts_def)

text \<open>
  C6, amended. The encoder emits the robot's pose fact as the unary predicate
  \<open>Pose(pose)\<close>, the tuple \<^verbatim>\<open>("Pose", robot.pose)\<close>: it is in every returned list, and
  it is the only form a fact named \<open>Pose\<close> takes there. (The robot is paired with the pose
  in \<open>AtPose(robot, pose)\<close>.)
\<close>

theorem C6_pose_fact:
  assumes "world_to_pddlstream_init w = Inr facts"
  shows "[Str ''Pose'', robot_pose w] \<in> set facts
       \<and> (\<forall>f\<in>set facts. hd f = Str ''Pose'' \<longrightarrow> f = [Str ''Pose'', robot_pose w])"
proof
  have "[Str ''Pose'', robot_pose w] \<in> set (all_facts w)"
    by (simp add: all_facts_def pre_facts_def robot_init_def Let_def)
  with init_set(2) [OF assms] show "[Str ''Pose'', robot_pose w] \<in> set facts"
    by auto
next
  show "\<forall>f\<in>set facts. hd f = Str ''Pose'' \<longrightarrow> f = [Str ''Pose'', robot_pose w]"
    using init_set(1) [OF assms] Pose_all_facts by blast
qed

theorem C6_pose_fact_witness:
  "world_to_pddlstream_init example_world = Inr example_facts
   \<and> [Str ''Pose'', Ref 9] \<in> set example_facts"
  using C6_pose_fact [OF run_example_world] run_example_world
  by (simp add: example_world_def)

section \<open>Type facts\<close>

lemma count_type_facts:
  "distinct cs \<Longrightarrow> count_list (type_facts cs) [Str ''Type'', c] = (if c \<in> set cs then 1 else 0)"
  by (induction cs) (auto simp: type_facts_def)

lemma count_Type_all_facts:
  "count_list (all_facts w) [Str ''Type'', c]
     = (if c \<in> category w ` set (locations w) then 1 else 0)
       + (if c \<in> category w ` set (objects w) then 1 else 0)"
proof -
  have "[Str ''Type'', c] \<notin> set (robot_init w)"
    by (simp add: robot_init_def Let_def)
  moreover have "[Str ''Type'', c] \<notin> set (concat (map room_facts (rooms w)))"
    by (auto simp: room_facts_def)
  moreover have "[Str ''Type'', c] \<notin> set (concat (map (loc_facts w) (locations w)))"
    by (auto simp: loc_facts_def spawn_facts_def)
  moreover have "[Str ''Type'', c] \<notin> set (concat (map (obj_facts w) (objects w)))"
    by (auto simp: obj_facts_def)
  moreover have "count_list (type_facts (collect_categories w xs [])) [Str ''Type'', c]
                   = (if c \<in> category w ` set xs then 1 else 0)" for xs
    by (simp add: count_type_facts distinct_collect_categories set_collect_categories)
  ultimately show ?thesis
    by (simp add: all_facts_def pre_facts_def)
qed

text \<open>
  C7, as stated, fails: in \<open>table_world\<close> the location's category, table, is the
  object's category too, and the output has the fact \<open>Type(table)\<close> twice.
\<close>

theorem C7_type_facts_counterexample:
  "locations table_world = [2] \<and> category table_world 2 = Str ''table''
   \<and> world_to_pddlstream_init table_world = Inr table_facts
   \<and> count_list table_facts [Str ''Type'', Str ''table''] = 2"
  by (simp add: enc_eval example_world_def table_world_def table_facts_def)

text \<open>
  C7, amended. Categories are collected in two sets, one over the locations and one over
  the objects, and each set gives one \<open>Type\<close> fact per member. So a returned list has, for
  every category, one \<open>Type(category)\<close> fact if it is the category of some location plus
  one if it is the category of some object: exactly one for a location category that no
  object has, however many locations have it, and exactly two when an object has it too.
\<close>

theorem C7_type_facts:
  assumes "world_to_pddlstream_init w = Inr facts"
  shows "count_list facts [Str ''Type'', c]
           = (if c \<in> category w ` set (locations w) then 1 else 0)
             + (if c \<in> category w ` set (objects w) then 1 else 0)"
proof -
  have "count_list facts [Str ''Type'', c] = count_list (all_facts w) [Str ''Type'', c]"
    by (rule init_count [OF assms]) simp
  then show ?thesis
    by (simp only: count_Type_all_facts)
qed

theorem C7_type_facts_witness:
  "world_to_pddlstream_init example_world = Inr example_facts
   \<and> count_list example_facts [Str ''Type'', Str ''table''] = 1"
  using C7_type_facts [OF run_example_world, of "Str ''table''"] run_example_world
  by (simp add: example_world_def)

section \<open>Changing the manipulated-object reference\<close>

lemma times_held_update:
  "times_held (w\<lparr>manipulated_object := Ref obj\<rparr>) os = count_list os obj"
  by (induction os) (auto simp: times_held_def)

lemma times_held_None:
  "manipulated_object w = NoneV \<Longrightarrow> times_held w os = 0"
  by (simp add: times_held_def)

lemma loc_facts_update:
  "loc_facts (w\<lparr>manipulated_object := v\<rparr>) = loc_facts w"
proof -
  have "spawn_facts (w\<lparr>manipulated_object := v\<rparr>) loc = spawn_facts w loc" for loc
    by (rule ext) (simp add: spawn_facts_def)
  then show ?thesis
    by (intro ext) (simp add: loc_facts_def)
qed

lemma pre_facts_update:
  "pre_facts (w\<lparr>manipulated_object := v\<rparr>) = pre_facts w"
  by (simp add: pre_facts_def robot_init_def loc_facts_update collect_categories_def Let_def)

lemma collect_categories_update:
  "collect_categories (w\<lparr>manipulated_object := v\<rparr>) xs cs = collect_categories w xs cs"
  by (simp add: collect_categories_def)

lemma obj_facts_toggle:
  assumes "manipulated_object w = NoneV"
  shows "mset (concat (map (obj_facts (w\<lparr>manipulated_object := Ref obj\<rparr>)) os))
           + replicate_mset (count_list os obj) [Str ''At'', Ref obj, parent w obj]
         = mset (concat (map (obj_facts w) os))
           + replicate_mset (count_list os obj) [Str ''Holding'', Ref (robot w), Ref obj]"
  using assms by (induction os) (auto simp: obj_facts_def)

text \<open>
  C9, as stated, fails: \<open>holding_world\<close> is \<open>example_world\<close> with the reference set to
  object 4, and the two outputs differ in the fact \<open>At(4, 3)\<close> as well, which only the
  world with the empty hand has.
\<close>

theorem C9_toggle_counterexample:
  "holding_world = example_world\<lparr>manipulated_object := Ref 4\<rparr>
   \<and> manipulated_object example_world = NoneV
   \<and> world_to_pddlstream_init example_world = Inr example_facts
   \<and> world_to_pddlstream_init holding_world = Inr holding_facts
   \<and> [Str ''At'', Ref 4, Ref 3] \<in> set example_facts
   \<and> [Str ''At'', Ref 4, Ref 3] \<notin> set holding_facts"
  by (simp add: enc_eval example_world_def holding_world_def example_facts_def holding_facts_def)

text \<open>
  C9, amended. Take a world with the manipulated-object reference unset and the same
  world with the reference on an object that \<^verbatim>\<open>world.objects\<close> lists exactly once. Both
  calls return, and as collections of facts the outputs differ in exactly three facts:
  \<open>HandEmpty(robot)\<close> and \<open>At(obj, parent)\<close> are in the first output only,
  \<open>Holding(robot, obj)\<close> is in the second only.
\<close>

theorem C9_toggle:
  assumes "manipulated_object w = NoneV" and "count_list (objects w) obj = 1"
  shows "\<exists>facts facts'.
           world_to_pddlstream_init w = Inr facts
         \<and> world_to_pddlstream_init (w\<lparr>manipulated_object := Ref obj\<rparr>) = Inr facts'
         \<and> mset facts' + {#[Str ''HandEmpty'', Ref (robot w)], [Str ''At'', Ref obj, parent w obj]#}
             = mset facts + {#[Str ''Holding'', Ref (robot w), Ref obj]#}"
proof -
  let ?w' = "w\<lparr>manipulated_object := Ref obj\<rparr>"
  let ?he = "[Str ''HandEmpty'', Ref (robot w)]"
  let ?at = "[Str ''At'', Ref obj, parent w obj]"
  let ?ho = "[Str ''Holding'', Ref (robot w), Ref obj]"
  let ?ty = "type_facts (collect_categories w (objects w) [])"
  have m: "times_held w (objects w) = 0"
    using assms(1) by (rule times_held_None)
  have m': "times_held ?w' (objects ?w') = 1"
    using assms(2) by (simp add: times_held_update)
  from m obtain facts where r: "world_to_pddlstream_init w = Inr facts"
    using init_returns_iff [of w] by auto
  from m' obtain facts' where r': "world_to_pddlstream_init ?w' = Inr facts'"
    using init_returns_iff [of ?w'] by auto
  from init_mset [OF r] m have f: "mset facts = mset (all_facts w)" by simp
  from init_mset [OF r'] m' have "mset facts' + {#?he#} = mset (all_facts ?w')" by simp
  then have f': "mset facts' + {#?he#}
      = mset (pre_facts w) + mset (concat (map (obj_facts ?w') (objects w))) + mset ?ty"
    by (simp add: all_facts_def pre_facts_update collect_categories_update)
  from obj_facts_toggle [OF assms(1), of obj "objects w"] assms(2)
  have t: "mset (concat (map (obj_facts ?w') (objects w))) + {#?at#}
             = mset (concat (map (obj_facts w) (objects w))) + {#?ho#}"
    by simp
  have "mset facts' + {#?he, ?at#} = (mset facts' + {#?he#}) + {#?at#}"
    by simp
  also have "\<dots> = mset (pre_facts w)
                    + (mset (concat (map (obj_facts ?w') (objects w))) + {#?at#}) + mset ?ty"
    by (simp only: f' ac_simps)
  also have "\<dots> = mset (pre_facts w)
                    + (mset (concat (map (obj_facts w) (objects w))) + {#?ho#}) + mset ?ty"
    by (simp only: t)
  also have "\<dots> = mset facts + {#?ho#}"
    by (simp add: f all_facts_def)
  finally show ?thesis using r r' by blast
qed

theorem C9_toggle_witness:
  "world_to_pddlstream_init example_world = Inr example_facts
   \<and> world_to_pddlstream_init holding_world = Inr holding_facts
   \<and> mset holding_facts + {#[Str ''HandEmpty'', Ref 0], [Str ''At'', Ref 4, Ref 3]#}
       = mset example_facts + {#[Str ''Holding'', Ref 0, Ref 4]#}"
proof -
  have h1: "manipulated_object example_world = NoneV"
    by (simp add: example_world_def)
  have h2: "count_list (objects example_world) 4 = 1"
    by (simp add: example_world_def)
  have w': "example_world\<lparr>manipulated_object := Ref 4\<rparr> = holding_world"
    by (simp add: holding_world_def)
  have "robot example_world = 0" and "parent example_world 4 = Ref 3"
    by (simp_all add: example_world_def)
  with C9_toggle [OF h1 h2] run_example_world run_holding_world show ?thesis
    by (simp add: w')
qed

end
